theory Spec2Isabelle
  imports Main "HOL-Library.Multiset" "HOL-Library.Sublist"
begin

section \<open>Data model\<close>

text \<open>
  The files under \<open>src/frontend\<close> and \<open>src/unnamed/part_002\<close> are earlier versions of the
  API service, the home component and the wallet service; the model follows the later
  ones, \<open>src/unnamed/part_000\<close> and \<open>src/unnamed/part_001\<close>.

  The wallet adapters come from an external library. The application only reads three
  attributes of an adapter (\<open>name\<close>, \<open>url\<close>, \<open>readyState\<close>) and compares adapters by
  object identity (\<open>===\<close>). An adapter is a record of these attributes together with
  \<open>oid\<close>, the identity of the object; two adapter values are the same object exactly when
  they are equal as records.
\<close>

datatype WalletReadyState = Installed | Loadable | NotDetected | Unsupported

record WalletAdapter =
  oid :: nat
  name :: string
  url :: string
  readyState :: WalletReadyState

text \<open>\<open>interface Log\<close> of the logger service; \<open>timestamp\<close> is the time value of the
  \<open>Date\<close> object (milliseconds since the epoch).\<close>

record Log =
  topic :: string
  message :: string
  timestamp :: int

text \<open>The two pictographs of the log messages, as their UTF-8 bytes.\<close>

definition check_mark :: string where
  "check_mark = [CHR 0xE2, CHR 0x9C, CHR 0x85]"

definition cross_mark :: string where
  "cross_mark = [CHR 0xE2, CHR 0x9D, CHR 0x8C]"

section \<open>LoggerService\<close>

text \<open>
  The logger service (\<open>src/unnamed/part_000\<close>, lines 75 to 85). \<open>printLog\<close> is the only place of the application that evaluates \<open>new Date()\<close>, and every
  evaluation appends one entry to \<open>logs\<close>, which starts empty and is written nowhere else.
  The system clock is therefore a function \<open>clk\<close> from the number of readings made so far
  to the time value read: the reading made by \<open>printLog\<close> on a list of \<open>k\<close> entries is
  \<open>clk k\<close>. Nothing is assumed of \<open>clk\<close>.
\<close>

type_synonym clock = "nat \<Rightarrow> int"

definition printLog :: "clock \<Rightarrow> string \<Rightarrow> string \<Rightarrow> Log list \<Rightarrow> Log list" where
  "printLog clk t m ls = ls @ [\<lparr>topic = t, message = m, timestamp = clk (length ls)\<rparr>]"

text \<open>A sequence of \<open>printLog(topic, message)\<close> calls, in call order.\<close>

definition printLogs :: "clock \<Rightarrow> (string \<times> string) list \<Rightarrow> Log list \<Rightarrow> Log list" where
  "printLogs clk cs ls = fold (\<lambda>(t, m). printLog clk t m) cs ls"

text \<open>The entry that the \<open>i\<close>-th reading of the clock stamps.\<close>

definition entry :: "clock \<Rightarrow> nat \<Rightarrow> string \<times> string \<Rightarrow> Log" where
  "entry clk i c = \<lparr>topic = fst c, message = snd c, timestamp = clk i\<rparr>"

section \<open>The wallet catalog\<close>

text \<open>
  The constructor of the wallet service (\<open>src/unnamed/part_001\<close>, lines 115 to 127) sorts
  the declared adapters. \<open>Array.prototype.sort\<close> with a comparison function is a stable
  sort (ECMAScript 2019 and later): \<open>array_sort\<close> inserts each element, from the last to
  the first, in front of the first element that it does not compare greater than. The
  comparison function of the constructor is the difference of the two priorities.
\<close>

definition priority :: "WalletReadyState \<Rightarrow> int" where
  "priority r = (case r of Installed \<Rightarrow> 0 | Loadable \<Rightarrow> 1 | NotDetected \<Rightarrow> 2 | Unsupported \<Rightarrow> 3)"

fun insert_cmp :: "('a \<Rightarrow> 'a \<Rightarrow> int) \<Rightarrow> 'a \<Rightarrow> 'a list \<Rightarrow> 'a list" where
  "insert_cmp cmp x [] = [x]"
| "insert_cmp cmp x (y # ys) = (if cmp x y \<le> 0 then x # y # ys else y # insert_cmp cmp x ys)"

definition array_sort :: "('a \<Rightarrow> 'a \<Rightarrow> int) \<Rightarrow> 'a list \<Rightarrow> 'a list" where
  "array_sort cmp xs = foldr (insert_cmp cmp) xs []"

definition compare_wallets :: "WalletAdapter \<Rightarrow> WalletAdapter \<Rightarrow> int" where
  "compare_wallets a b = priority (readyState a) - priority (readyState b)"

definition sorted_wallets :: "WalletAdapter list \<Rightarrow> WalletAdapter list" where
  "sorted_wallets all_wallets = array_sort compare_wallets all_wallets"

section \<open>The wallet adapter library, as the application sees it\<close>

text \<open>
  An adapter capability (\<open>connect()\<close>, \<open>disconnect()\<close>) returns a promise, which the
  library resolves or rejects; until it settles the adapter may emit events on itself.
  The application subscribes to two of them, \<open>'disconnect'\<close> and \<open>'error'\<close>. What the
  library does on one invocation is an \<open>adapter_reply\<close>: the events emitted, in order,
  in the task that settles the promise, and the settlement. Nothing is assumed of it.
\<close>

datatype outcome = Resolved | Rejected string

datatype wallet_event = DisconnectEvent | ErrorEvent string

record adapter_reply =
  emitted :: "wallet_event list"
  settles :: outcome

definition event_name :: "wallet_event \<Rightarrow> string" where
  "event_name ev = (case ev of DisconnectEvent \<Rightarrow> ''disconnect'' | ErrorEvent e \<Rightarrow> ''error'')"

definition event_arg :: "wallet_event \<Rightarrow> string" where
  "event_arg ev = (case ev of DisconnectEvent \<Rightarrow> ''undefined'' | ErrorEvent e \<Rightarrow> e)"

text \<open>
  The two closures that one run of the effect creates; the number is the run that created
  them (two runs create different function objects), the adapter is the captured
  \<open>wallet\<close>.
\<close>

datatype handler = disconnectHandler nat WalletAdapter | errorHandler nat WalletAdapter

text \<open>The invocations made on adapters, in order (a history kept for the proofs).\<close>

datatype adapter_call =
    CallConnect WalletAdapter
  | CallDisconnect WalletAdapter
  | CallOn WalletAdapter string handler
  | CallOff WalletAdapter string handler

section \<open>WalletService\<close>

text \<open>
  The wallet service (\<open>src/unnamed/part_001\<close>, lines 74 to 174). The state of the service
  and of what it shares with its collaborators:
  \<^item> \<open>wallets\<close>, \<open>activeWallet\<close>: the two signals;
  \<^item> \<open>logs\<close>: the signal of the injected logger service;
  \<^item> \<open>listeners\<close>: the handlers registered on the adapters' event emitters, in order of
    registration;
  \<^item> \<open>cleanup\<close>: the function that the last run of the effect passed to \<open>onCleanup\<close>
    (the captured wallet and the run whose handlers it removes);
  \<^item> \<open>dirty\<close>: the effect is scheduled (it was created, or \<open>activeWallet\<close> changed, and it
    has not run since);
  \<^item> \<open>runs\<close>: how many times the effect body has subscribed;
  \<^item> \<open>calls\<close>: the history of adapter invocations.
  Console output is not modelled.
\<close>

record WalletService =
  wallets :: "WalletAdapter list"
  activeWallet :: "WalletAdapter option"
  logs :: "Log list"
  listeners :: "(WalletAdapter \<times> string \<times> handler) list"
  cleanup :: "(WalletAdapter \<times> nat) option"
  dirty :: bool
  runs :: nat
  calls :: "adapter_call list"

text \<open>\<open>this.activeWallet.set(v)\<close>: a signal notifies its consumers only when the value
  changes.\<close>

definition set_activeWallet :: "WalletAdapter option \<Rightarrow> WalletService \<Rightarrow> WalletService" where
  "set_activeWallet v s = (if activeWallet s = v then s else s\<lparr>activeWallet := v, dirty := True\<rparr>)"

text \<open>\<open>this.logsService.printLog(topic, message)\<close>.\<close>

definition log_line :: "clock \<Rightarrow> string \<Rightarrow> string \<Rightarrow> WalletService \<Rightarrow> WalletService" where
  "log_line clk t m s = s\<lparr>logs := printLog clk t m (logs s)\<rparr>"

text \<open>\<open>wallet.on(event, fn)\<close> and \<open>wallet.off(event, fn)\<close> of the adapter's event emitter.\<close>

definition wallet_on :: "WalletAdapter \<Rightarrow> string \<Rightarrow> handler \<Rightarrow> WalletService \<Rightarrow> WalletService" where
  "wallet_on w n h s =
     s\<lparr>listeners := listeners s @ [(w, n, h)], calls := calls s @ [CallOn w n h]\<rparr>"

definition wallet_off :: "WalletAdapter \<Rightarrow> string \<Rightarrow> handler \<Rightarrow> WalletService \<Rightarrow> WalletService" where
  "wallet_off w n h s =
     s\<lparr>listeners := filter (\<lambda>l. l \<noteq> (w, n, h)) (listeners s), calls := calls s @ [CallOff w n h]\<rparr>"

text \<open>The bodies of \<open>disconnectHandler\<close> and \<open>errorHandler\<close> (constructor, lines 133 to 140).\<close>

fun call_handler :: "clock \<Rightarrow> handler \<Rightarrow> wallet_event \<Rightarrow> WalletService \<Rightarrow> WalletService" where
  "call_handler clk (disconnectHandler k wallet) ev s =
     set_activeWallet None (log_line clk ''info'' (name wallet @ '' disconnected '' @ cross_mark) s)"
| "call_handler clk (errorHandler k wallet) ev s =
     log_line clk ''error'' (name wallet @ '' error: '' @ event_arg ev) s"

text \<open>Adapter \<open>w\<close> emits \<open>ev\<close>: the handlers registered on \<open>w\<close> under the event's name run,
  in order of registration.\<close>

definition emit :: "clock \<Rightarrow> WalletAdapter \<Rightarrow> wallet_event \<Rightarrow> WalletService \<Rightarrow> WalletService" where
  "emit clk w ev s =
     fold (\<lambda>l. call_handler clk (snd (snd l)) ev)
          (filter (\<lambda>l. fst l = w \<and> fst (snd l) = event_name ev) (listeners s)) s"

text \<open>
  The effect of the constructor (lines 129 to 149). Writing the signal schedules the
  effect; the framework runs a scheduled effect later, when the running task has given
  control back, and before the body runs again the cleanup function registered by the
  previous run is called. In the functions below this is the point where a function goes
  on after the adapter's promise that it awaits has settled, and the point after the
  handlers of an event that an adapter emits of its own accord.
\<close>

definition run_cleanup :: "WalletService \<Rightarrow> WalletService" where
  "run_cleanup s =
     (case cleanup s of
        None \<Rightarrow> s
      | Some (wallet, k) \<Rightarrow>
          (wallet_off wallet ''error'' (errorHandler k wallet)
             (wallet_off wallet ''disconnect'' (disconnectHandler k wallet) s))\<lparr>cleanup := None\<rparr>)"

definition effect_body :: "WalletService \<Rightarrow> WalletService" where
  "effect_body s =
     (case activeWallet s of
        None \<Rightarrow> s
      | Some wallet \<Rightarrow>
          (wallet_on wallet ''error'' (errorHandler (runs s) wallet)
             (wallet_on wallet ''disconnect'' (disconnectHandler (runs s) wallet) s))
          \<lparr>cleanup := Some (wallet, runs s), runs := Suc (runs s)\<rparr>)"

definition flush_effects :: "WalletService \<Rightarrow> WalletService" where
  "flush_effects s = (if dirty s then effect_body (run_cleanup (s\<lparr>dirty := False\<rparr>)) else s)"

text \<open>The constructor, and the service once the effect has run for the first time.\<close>

definition constructor :: "WalletAdapter list \<Rightarrow> WalletService" where
  "constructor all_wallets =
     \<lparr>wallets = sorted_wallets all_wallets, activeWallet = None, logs = [], listeners = [],
      cleanup = None, dirty = True, runs = 0, calls = []\<rparr>"

definition startup :: "WalletAdapter list \<Rightarrow> WalletService" where
  "startup all_wallets = flush_effects (constructor all_wallets)"

text \<open>
  \<open>disconnect()\<close> (lines 171 to 173): \<open>d\<close> is what the active adapter's \<open>disconnect()\<close>
  does. The result is the state when the returned promise settles, and its settlement.
\<close>

definition disconnect :: "clock \<Rightarrow> adapter_reply \<Rightarrow> WalletService \<Rightarrow> WalletService \<times> outcome" where
  "disconnect clk d s =
     (case activeWallet s of
        None \<Rightarrow> (s, Resolved)
      | Some w \<Rightarrow>
          (flush_effects (fold (emit clk w) (emitted d) (s\<lparr>calls := calls s @ [CallDisconnect w]\<rparr>)),
           settles d))"

text \<open>
  \<open>connectWallet(wallet)\<close> (lines 152 to 169): \<open>d\<close> is what the \<open>disconnect()\<close> of the
  wallet active at the call does, \<open>c\<close> what \<open>wallet.connect()\<close> does. A rejected
  \<open>await this.disconnect()\<close> rejects the call; the \<open>catch\<close> of the promise chain makes a
  rejected \<open>connect()\<close> a resolved call.
\<close>

definition connectWallet ::
  "clock \<Rightarrow> adapter_reply \<Rightarrow> adapter_reply \<Rightarrow> WalletAdapter \<Rightarrow> WalletService \<Rightarrow> WalletService \<times> outcome" where
  "connectWallet clk d c wallet s =
     (if activeWallet s = Some wallet then (s, Resolved)
      else
        (case (if activeWallet s \<noteq> None then disconnect clk d s else (s, Resolved)) of
           (s1, Rejected e) \<Rightarrow> (s1, Rejected e)
         | (s1, Resolved) \<Rightarrow>
             (let s2 = fold (emit clk wallet) (emitted c) (s1\<lparr>calls := calls s1 @ [CallConnect wallet]\<rparr>)
              in (case settles c of
                    Resolved \<Rightarrow>
                      (flush_effects
                         (log_line clk ''info'' (name wallet @ '' connected '' @ check_mark)
                            (set_activeWallet (Some wallet) s2)),
                       Resolved)
                  | Rejected e \<Rightarrow>
                      (flush_effects (log_line clk ''error'' (name wallet @ '' error: '' @ e) s2),
                       Resolved)))))"

text \<open>
  What happens to a session, one operation after the other, each run until its promise
  has settled: a call of \<open>connectWallet\<close>, a call of \<open>disconnect\<close>, or an adapter emitting
  an event of its own accord.
\<close>

datatype operation =
    Connect WalletAdapter adapter_reply adapter_reply
  | Disconnect adapter_reply
  | Emits WalletAdapter wallet_event

fun perform :: "clock \<Rightarrow> operation \<Rightarrow> WalletService \<Rightarrow> WalletService" where
  "perform clk (Connect w d c) s = fst (connectWallet clk d c w s)"
| "perform clk (Disconnect d) s = fst (disconnect clk d s)"
| "perform clk (Emits w ev) s = flush_effects (emit clk w ev s)"

definition run :: "clock \<Rightarrow> operation list \<Rightarrow> WalletService \<Rightarrow> WalletService" where
  "run clk ops s = fold (perform clk) ops s"

subsection \<open>Calls in flight\<close>

text \<open>
  The same two functions, cut at their \<open>await\<close>s, for calls that are made while an earlier
  one has not settled (the navbar does not await the promise of \<open>connectWallet\<close>). A call
  in flight is waiting for an adapter's promise: for the \<open>disconnect()\<close> of the wallet that
  was active at the call, after which \<open>connectWallet(wallet)\<close> goes on to connect (\<open>Some
  wallet\<close>) and \<open>disconnect()\<close> returns (\<open>None\<close>), or for the promise chain on
  \<open>wallet.connect()\<close>.
\<close>

datatype pending =
    DisconnectPending WalletAdapter "WalletAdapter option"
  | ConnectPending WalletAdapter

text \<open>The part of a call that runs before its first \<open>await\<close> suspends it.\<close>

definition call_connectWallet ::
  "WalletAdapter \<Rightarrow> WalletService \<times> pending list \<Rightarrow> WalletService \<times> pending list" where
  "call_connectWallet wallet \<sigma> =
     (if activeWallet (fst \<sigma>) = Some wallet then \<sigma>
      else
        (case activeWallet (fst \<sigma>) of
           Some a \<Rightarrow>
             ((fst \<sigma>)\<lparr>calls := calls (fst \<sigma>) @ [CallDisconnect a]\<rparr>,
              snd \<sigma> @ [DisconnectPending a (Some wallet)])
         | None \<Rightarrow>
             ((fst \<sigma>)\<lparr>calls := calls (fst \<sigma>) @ [CallConnect wallet]\<rparr>,
              snd \<sigma> @ [ConnectPending wallet])))"

definition call_disconnect :: "WalletService \<times> pending list \<Rightarrow> WalletService \<times> pending list" where
  "call_disconnect \<sigma> =
     (case activeWallet (fst \<sigma>) of
        None \<Rightarrow> \<sigma>
      | Some a \<Rightarrow>
          ((fst \<sigma>)\<lparr>calls := calls (fst \<sigma>) @ [CallDisconnect a]\<rparr>,
           snd \<sigma> @ [DisconnectPending a None]))"

text \<open>The adapter settles the promise that a call is waiting for, with reply \<open>r\<close>: the call
  runs on to its next \<open>await\<close> or to its end. The result is the new state and what the call
  is waiting for next, if anything.\<close>

fun resume :: "clock \<Rightarrow> pending \<Rightarrow> adapter_reply \<Rightarrow> WalletService \<Rightarrow> WalletService \<times> pending list" where
  "resume clk (DisconnectPending a next) r s =
     (let s1 = flush_effects (fold (emit clk a) (emitted r) s)
      in (case next of
            None \<Rightarrow> (s1, [])
          | Some wallet \<Rightarrow>
              (case settles r of
                 Rejected e \<Rightarrow> (s1, [])
               | Resolved \<Rightarrow>
                   (s1\<lparr>calls := calls s1 @ [CallConnect wallet]\<rparr>, [ConnectPending wallet]))))"
| "resume clk (ConnectPending wallet) r s =
     (let s2 = fold (emit clk wallet) (emitted r) s
      in (case settles r of
            Resolved \<Rightarrow>
              (flush_effects
                 (log_line clk ''info'' (name wallet @ '' connected '' @ check_mark)
                    (set_activeWallet (Some wallet) s2)), [])
          | Rejected e \<Rightarrow>
              (flush_effects (log_line clk ''error'' (name wallet @ '' error: '' @ e) s2), [])))"

text \<open>What can happen to a session with calls in flight: a call is made, the promise that
  the \<open>i\<close>-th call in flight is waiting for settles, or an adapter emits an event of its
  own accord.\<close>

datatype happening =
    Called_connectWallet WalletAdapter
  | Called_disconnect
  | Settled nat adapter_reply
  | Emitted WalletAdapter wallet_event

fun happen :: "clock \<Rightarrow> happening \<Rightarrow> WalletService \<times> pending list \<Rightarrow> WalletService \<times> pending list" where
  "happen clk (Called_connectWallet w) \<sigma> = call_connectWallet w \<sigma>"
| "happen clk Called_disconnect \<sigma> = call_disconnect \<sigma>"
| "happen clk (Settled i r) \<sigma> =
     (if i < length (snd \<sigma>)
      then (case resume clk (snd \<sigma> ! i) r (fst \<sigma>) of
              (s', next) \<Rightarrow> (s', take i (snd \<sigma>) @ next @ drop (Suc i) (snd \<sigma>)))
      else \<sigma>)"
| "happen clk (Emitted w ev) \<sigma> = (flush_effects (emit clk w ev (fst \<sigma>)), snd \<sigma>)"

definition execute ::
  "clock \<Rightarrow> happening list \<Rightarrow> WalletService \<times> pending list \<Rightarrow> WalletService \<times> pending list" where
  "execute clk hs \<sigma> = fold (happen clk) hs \<sigma>"

text \<open>The happenings of one operation that runs with no other call in flight.\<close>

definition alone :: "operation \<Rightarrow> WalletService \<Rightarrow> happening list" where
  "alone op s =
     (case op of
        Connect w d c \<Rightarrow>
          Called_connectWallet w #
            (if activeWallet s = Some w then []
             else if activeWallet s = None then [Settled 0 c]
             else [Settled 0 d, Settled 0 c])
      | Disconnect d \<Rightarrow>
          Called_disconnect # (if activeWallet s = None then [] else [Settled 0 d])
      | Emits w ev \<Rightarrow> [Emitted w ev])"

text \<open>
  For the statements about the log: the entry that the handler of wallet \<open>a\<close> subscribed to
  the event appends when \<open>a\<close> emits \<open>ev\<close> and the clock is read for the \<open>i\<close>-th time (the
  bodies of \<open>disconnectHandler\<close> and \<open>errorHandler\<close>), the entries for a sequence of events
  from the \<open>n\<close>-th reading on, and the entries of \<open>s'\<close> that come after those of \<open>s\<close>.
\<close>

definition event_entry :: "clock \<Rightarrow> WalletAdapter \<Rightarrow> nat \<Rightarrow> wallet_event \<Rightarrow> Log" where
  "event_entry clk a i ev =
     (case ev of
        DisconnectEvent \<Rightarrow>
          \<lparr>topic = ''info'', message = name a @ '' disconnected '' @ cross_mark, timestamp = clk i\<rparr>
      | ErrorEvent e \<Rightarrow>
          \<lparr>topic = ''error'', message = name a @ '' error: '' @ e, timestamp = clk i\<rparr>)"

fun event_entries :: "clock \<Rightarrow> WalletAdapter \<Rightarrow> nat \<Rightarrow> wallet_event list \<Rightarrow> Log list" where
  "event_entries clk a n [] = []"
| "event_entries clk a n (ev # es) = event_entry clk a n ev # event_entries clk a (Suc n) es"


text \<open>The invocations of capabilities among the adapter invocations.\<close>

fun is_capability :: "adapter_call \<Rightarrow> bool" where
  "is_capability (CallConnect w) = True"
| "is_capability (CallDisconnect w) = True"
| "is_capability (CallOn w n h) = False"
| "is_capability (CallOff w n h) = False"

definition capability_calls :: "adapter_call list \<Rightarrow> adapter_call list" where
  "capability_calls cs = filter is_capability cs"

text \<open>
  The subscriptions are those that the registered cleanup function removes, and an effect
  that is not scheduled has subscribed to the active wallet. A state is settled when
  moreover the effect is not scheduled.
\<close>

definition handlers_of :: "(WalletAdapter \<times> nat) option \<Rightarrow> (WalletAdapter \<times> string \<times> handler) list" where
  "handlers_of c =
     (case c of
        None \<Rightarrow> []
      | Some (w, k) \<Rightarrow> [(w, ''disconnect'', disconnectHandler k w), (w, ''error'', errorHandler k w)])"

definition coherent :: "WalletService \<Rightarrow> bool" where
  "coherent s \<longleftrightarrow>
     listeners s = handlers_of (cleanup s)
     \<and> (\<not> dirty s \<longrightarrow> map_option fst (cleanup s) = activeWallet s)"

definition settled :: "WalletService \<Rightarrow> bool" where
  "settled s \<longleftrightarrow> coherent s \<and> \<not> dirty s"

section \<open>NavbarComponent\<close>

text \<open>
  The navbar component (\<open>src/unnamed/part_000\<close>, lines 37 to 63): its own signal
  \<open>openWallet\<close>, the service it injects, the URLs passed to
  \<open>window.open\<close>, and the wallets passed to the service's \<open>connectWallet\<close>, in order (the
  last two are histories kept for the proofs). The component does not await the service's
  promise; the model lets the call run to its settlement.
\<close>

record NavbarComponent =
  walletService :: WalletService
  openWallet :: bool
  opened :: "string list"
  connects :: "WalletAdapter list"

definition openWallets :: "NavbarComponent \<Rightarrow> NavbarComponent" where
  "openWallets nav = nav\<lparr>openWallet := \<not> openWallet nav\<rparr>"

definition navbar_connectWallet ::
  "clock \<Rightarrow> adapter_reply \<Rightarrow> adapter_reply \<Rightarrow> string \<Rightarrow> NavbarComponent \<Rightarrow> NavbarComponent" where
  "navbar_connectWallet clk d c nm nav =
     (case find (\<lambda>w. name w = nm) (wallets (walletService nav)) of
        None \<Rightarrow> nav
      | Some wallet \<Rightarrow>
          if readyState wallet = Installed
          then nav\<lparr>walletService := fst (connectWallet clk d c wallet (walletService nav)),
                   connects := connects nav @ [wallet],
                   openWallet := False\<rparr>
          else nav\<lparr>opened := opened nav @ [url wallet]\<rparr>)"

definition disconnectWallet :: "clock \<Rightarrow> adapter_reply \<Rightarrow> NavbarComponent \<Rightarrow> NavbarComponent" where
  "disconnectWallet clk d nav = nav\<lparr>walletService := fst (disconnect clk d (walletService nav))\<rparr>"

text \<open>The user's actions on the navbar, and a navbar on a service just started.\<close>

datatype navbar_action =
    OpenWallets
  | ConnectWallet string adapter_reply adapter_reply
  | DisconnectWallet adapter_reply

fun navbar_perform :: "clock \<Rightarrow> navbar_action \<Rightarrow> NavbarComponent \<Rightarrow> NavbarComponent" where
  "navbar_perform clk OpenWallets nav = openWallets nav"
| "navbar_perform clk (ConnectWallet nm d c) nav = navbar_connectWallet clk d c nm nav"
| "navbar_perform clk (DisconnectWallet d) nav = disconnectWallet clk d nav"

definition navbar_init :: "WalletAdapter list \<Rightarrow> NavbarComponent" where
  "navbar_init all_wallets =
     \<lparr>walletService = startup all_wallets, openWallet = False, opened = [], connects = []\<rparr>"

section \<open>ApiService and HomeComponent\<close>

text \<open>The API service (\<open>src/unnamed/part_001\<close>, lines 4 to 32) and the home component
  (\<open>src/unnamed/part_000\<close>, lines 14 to 25).\<close>

record League =
  resource :: string
  league_id :: int
  season_id :: int
  country_id :: int
  league_name :: string
  code :: string
  image_path :: string
  league_type :: string
  updated_at :: string

record LeaguesResponse =
  leagues :: "League list"

text \<open>
  What the observable of \<open>HttpClient.get\<close> delivers to a subscriber: the parsed body, or
  an error. The backend is a function from the URL requested; the client keeps the URLs
  it has requested (a history kept for the proofs).
\<close>

datatype http_result = HttpBody LeaguesResponse | HttpError string

record HttpClient =
  backend :: "string \<Rightarrow> http_result"
  requested :: "string list"

definition http_get :: "string \<Rightarrow> HttpClient \<Rightarrow> http_result \<times> HttpClient" where
  "http_get u h = (backend h u, h\<lparr>requested := requested h @ [u]\<rparr>)"

definition API_BASE_URL :: string where
  "API_BASE_URL = ''http://localhost:8000''"

definition get_leagues :: "HttpClient \<Rightarrow> http_result \<times> HttpClient" where
  "get_leagues h = http_get (API_BASE_URL @ ''/get_leagues'') h"

record HomeComponent =
  api :: HttpClient
  logger :: "Log list"
  home_leagues :: "League list"

text \<open>The constructor of the home component (lines 19 to 24): the field starts empty, and
  the only callback of \<open>subscribe\<close> is the one for a delivered value.\<close>

definition HomeComponent_constructor :: "clock \<Rightarrow> HttpClient \<Rightarrow> Log list \<Rightarrow> HomeComponent" where
  "HomeComponent_constructor clk h ls =
     (case get_leagues h of
        (HttpBody data, h') \<Rightarrow>
          \<lparr>api = h',
           logger = printLog clk ''success'' (''Leagues fetched successfully '' @ check_mark) ls,
           home_leagues = leagues data\<rparr>
      | (HttpError e, h') \<Rightarrow> \<lparr>api = h', logger = ls, home_leagues = []\<rparr>)"

section \<open>Example values\<close>

definition phantom :: WalletAdapter where
  "phantom = \<lparr>oid = 0, name = ''Phantom'', url = ''https://phantom.app'', readyState = Installed\<rparr>"

definition solflare :: WalletAdapter where
  "solflare = \<lparr>oid = 1, name = ''Solflare'', url = ''https://solflare.com'', readyState = Installed\<rparr>"

definition ledger :: WalletAdapter where
  "ledger = \<lparr>oid = 2, name = ''Ledger'', url = ''https://ledger.com'', readyState = Loadable\<rparr>"

definition trezor :: WalletAdapter where
  "trezor = \<lparr>oid = 3, name = ''Trezor'', url = ''https://trezor.io'', readyState = Unsupported\<rparr>"

text \<open>A clock that advances by one at each reading, and one that is set back after its
  first reading.\<close>

definition ticking :: clock where
  "ticking k = int k"

definition set_back :: clock where
  "set_back k = (if k = 0 then 2 else 1)"

text \<open>An adapter call that resolves without an event, one that emits \<open>'disconnect'\<close> and
  resolves, and one that rejects.\<close>

definition quiet :: adapter_reply where
  "quiet = \<lparr>emitted = [], settles = Resolved\<rparr>"

definition announced :: adapter_reply where
  "announced = \<lparr>emitted = [DisconnectEvent], settles = Resolved\<rparr>"

definition refused :: adapter_reply where
  "refused = \<lparr>emitted = [], settles = Rejected ''rejected''\<rparr>"




definition premier :: League where
  "premier = \<lparr>resource = ''leagues'', league_id = 1, season_id = 7, country_id = 44,
     league_name = ''Premier'', code = ''PL'', image_path = ''pl.png'', league_type = ''league'',
     updated_at = ''2024-01-01T00:00:00Z''\<rparr>"

text \<open>A backend that answers with one league, and one whose transport fails.\<close>

definition mock_backend :: HttpClient where
  "mock_backend = \<lparr>backend = (\<lambda>u. HttpBody \<lparr>leagues = [premier]\<rparr>), requested = []\<rparr>"

definition failing_backend :: HttpClient where
  "failing_backend = \<lparr>backend = (\<lambda>u. HttpError ''timeout''), requested = []\<rparr>"

section \<open>The log store and the catalog: auxiliary facts\<close>

lemma printLogs_append:
  "printLogs clk cs ls = ls @ map (\<lambda>(i, c). entry clk i c) (zip [length ls ..< length ls + length cs] cs)"
proof (induction cs arbitrary: ls)
  case Nil
  show ?case by (simp add: printLogs_def)
next
  case (Cons c cs)
  have step: "printLogs clk (c # cs) ls = printLogs clk cs (ls @ [entry clk (length ls) c])"
    by (simp add: printLogs_def split_beta printLog_def entry_def)
  have range: "[length ls ..< length ls + length (c # cs)]
               = length ls # [Suc (length ls) ..< Suc (length ls) + length cs]"
    by (subst upt_rec) simp
  show ?case
    by (simp only: step Cons.IH range) simp
qed

lemma timestamps_printLogs:
  "map timestamp (printLogs clk cs []) = map clk [0 ..< length cs]"
proof -
  let ?z = "zip [0 ..< length cs] cs"
  have "map timestamp (printLogs clk cs []) = map (\<lambda>x. clk (fst x)) ?z"
    by (simp add: printLogs_append entry_def split_beta comp_def)
  also have "\<dots> = map clk (map fst ?z)"
    by (simp only: map_map comp_def)
  also have "map fst ?z = [0 ..< length cs]"
    by (rule map_fst_zip) simp
  finally show ?thesis .
qed

lemma insert_cmp_key:
  "insert_cmp (\<lambda>a b. f a - f b) x xs = insort_key f x xs"
  by (induction xs) auto

lemma array_sort_key:
  "array_sort (\<lambda>a b. f a - f b) xs = sort_key f xs"
  by (induction xs) (simp_all add: array_sort_def sort_key_def insert_cmp_key)

lemma sorted_wallets_sort_key:
  "sorted_wallets ws = sort_key (\<lambda>w. priority (readyState w)) ws"
  using array_sort_key [of "\<lambda>w. priority (readyState w)" ws]
  by (simp add: sorted_wallets_def compare_wallets_def [abs_def])

lemma priority_inj: "priority r = priority r' \<longleftrightarrow> r = r'"
  by (cases r; cases r') (simp_all add: priority_def)

lemmas example_defs = phantom_def solflare_def ledger_def trezor_def ticking_def set_back_def
  quiet_def announced_def refused_def premier_def

lemmas service_defs = startup_def constructor_def flush_effects_def run_cleanup_def effect_body_def
  sorted_wallets_def array_sort_def compare_wallets_def priority_def
  connectWallet_def disconnect_def emit_def log_line_def set_activeWallet_def printLog_def
  wallet_on_def wallet_off_def run_def event_name_def event_arg_def

lemma wallets_flush_effects: "wallets (flush_effects s) = wallets s"
  by (simp add: flush_effects_def run_cleanup_def effect_body_def wallet_on_def wallet_off_def
      split: option.splits prod.splits)

lemma wallets_startup: "wallets (startup ws) = sort_key (\<lambda>w. priority (readyState w)) ws"
  by (simp add: startup_def wallets_flush_effects constructor_def sorted_wallets_sort_key)

lemma sorted_clock: "sorted (map clk [0 ..< n]) \<longleftrightarrow> (\<forall>i j. i \<le> j \<and> j < n \<longrightarrow> clk i \<le> clk j)"
  by (auto simp: sorted_iff_nth_mono)

lemma connects_Installed_step:
  "\<forall>w\<in>set (connects nav). readyState w = Installed \<Longrightarrow>
   \<forall>w\<in>set (connects (navbar_perform clk act nav)). readyState w = Installed"
  by (cases act)
     (auto simp: openWallets_def navbar_connectWallet_def disconnectWallet_def
           split: option.splits if_splits)

lemma connects_Installed_fold:
  "\<forall>w\<in>set (connects nav). readyState w = Installed \<Longrightarrow>
   \<forall>w\<in>set (connects (fold (navbar_perform clk) acts nav)). readyState w = Installed"
proof (induction acts arbitrary: nav)
  case Nil
  then show ?case by simp
next
  case (Cons act acts)
  have "\<forall>w\<in>set (connects (navbar_perform clk act nav)). readyState w = Installed"
    using Cons.prems by (rule connects_Installed_step)
  then show ?case using Cons.IH by simp
qed

section \<open>The wallet session: auxiliary facts\<close>

subsection \<open>What each step leaves alone\<close>

lemma log_line_simps [simp]:
  "activeWallet (log_line clk t m s) = activeWallet s"
  "listeners (log_line clk t m s) = listeners s"
  "cleanup (log_line clk t m s) = cleanup s"
  "dirty (log_line clk t m s) = dirty s"
  "runs (log_line clk t m s) = runs s"
  "calls (log_line clk t m s) = calls s"
  "wallets (log_line clk t m s) = wallets s"
  "logs (log_line clk t m s) = printLog clk t m (logs s)"
  by (simp_all add: log_line_def)

lemma set_activeWallet_simps [simp]:
  "activeWallet (set_activeWallet v s) = v"
  "listeners (set_activeWallet v s) = listeners s"
  "cleanup (set_activeWallet v s) = cleanup s"
  "dirty (set_activeWallet v s) = (dirty s \<or> activeWallet s \<noteq> v)"
  "runs (set_activeWallet v s) = runs s"
  "calls (set_activeWallet v s) = calls s"
  "wallets (set_activeWallet v s) = wallets s"
  "logs (set_activeWallet v s) = logs s"
  by (auto simp: set_activeWallet_def)

lemma call_handler_simps [simp]:
  "listeners (call_handler clk h ev s) = listeners s"
  "cleanup (call_handler clk h ev s) = cleanup s"
  "runs (call_handler clk h ev s) = runs s"
  "calls (call_handler clk h ev s) = calls s"
  "wallets (call_handler clk h ev s) = wallets s"
  by (cases h; simp)+

lemma call_handler_active:
  "activeWallet (call_handler clk h ev s) = None
   \<or> activeWallet (call_handler clk h ev s) = activeWallet s"
  by (cases h) simp_all

lemma handlers_simps [simp]:
  "listeners (fold (\<lambda>l. call_handler clk (snd (snd l)) ev) ls s) = listeners s"
  "cleanup (fold (\<lambda>l. call_handler clk (snd (snd l)) ev) ls s) = cleanup s"
  "runs (fold (\<lambda>l. call_handler clk (snd (snd l)) ev) ls s) = runs s"
  "calls (fold (\<lambda>l. call_handler clk (snd (snd l)) ev) ls s) = calls s"
  "wallets (fold (\<lambda>l. call_handler clk (snd (snd l)) ev) ls s) = wallets s"
  by (induction ls arbitrary: s; simp)+

lemma handlers_active:
  "activeWallet (fold (\<lambda>l. call_handler clk (snd (snd l)) ev) ls s) = None
   \<or> activeWallet (fold (\<lambda>l. call_handler clk (snd (snd l)) ev) ls s) = activeWallet s"
proof (induction ls arbitrary: s)
  case Nil
  show ?case by simp
next
  case (Cons l ls)
  show ?case
    using Cons.IH [of "call_handler clk (snd (snd l)) ev s"]
          call_handler_active [of clk "snd (snd l)" ev s]
    by auto
qed

lemma emit_simps [simp]:
  "listeners (emit clk w ev s) = listeners s"
  "cleanup (emit clk w ev s) = cleanup s"
  "runs (emit clk w ev s) = runs s"
  "calls (emit clk w ev s) = calls s"
  "wallets (emit clk w ev s) = wallets s"
  by (simp_all add: emit_def)

lemma emit_active:
  "activeWallet (emit clk w ev s) = None \<or> activeWallet (emit clk w ev s) = activeWallet s"
  unfolding emit_def by (rule handlers_active)

lemma burst_simps [simp]:
  "listeners (fold (emit clk w) es s) = listeners s"
  "cleanup (fold (emit clk w) es s) = cleanup s"
  "runs (fold (emit clk w) es s) = runs s"
  "calls (fold (emit clk w) es s) = calls s"
  "wallets (fold (emit clk w) es s) = wallets s"
  by (induction es arbitrary: s; simp)+

lemma burst_active:
  "activeWallet (fold (emit clk w) es s) = None
   \<or> activeWallet (fold (emit clk w) es s) = activeWallet s"
proof (induction es arbitrary: s)
  case Nil
  show ?case by simp
next
  case (Cons ev es)
  show ?case
    using Cons.IH [of "emit clk w ev s"] emit_active [of clk w ev s]
    by auto
qed

lemma flush_effects_simps [simp]:
  "activeWallet (flush_effects s) = activeWallet s"
  "logs (flush_effects s) = logs s"
  "wallets (flush_effects s) = wallets s"
  by (simp_all add: flush_effects_def run_cleanup_def effect_body_def wallet_on_def wallet_off_def
      split: option.splits prod.splits)

lemma capability_calls_flush [simp]:
  "capability_calls (calls (flush_effects s)) = capability_calls (calls s)"
  by (simp add: flush_effects_def run_cleanup_def effect_body_def wallet_on_def wallet_off_def
      capability_calls_def split: option.splits prod.splits)

subsection \<open>Subscriptions follow the active wallet\<close>

lemma coherent_calls [simp]: "coherent (s\<lparr>calls := cs\<rparr>) = coherent s"
  by (simp add: coherent_def)

lemma coherent_log_line [simp]: "coherent (log_line clk t m s) = coherent s"
  by (simp add: coherent_def)

lemma coherent_set_activeWallet: "coherent s \<Longrightarrow> coherent (set_activeWallet v s)"
  by (auto simp: coherent_def)

lemma coherent_call_handler: "coherent s \<Longrightarrow> coherent (call_handler clk h ev s)"
  by (cases h) (simp_all add: coherent_set_activeWallet)

lemma coherent_handlers:
  "coherent s \<Longrightarrow> coherent (fold (\<lambda>l. call_handler clk (snd (snd l)) ev) ls s)"
  by (induction ls arbitrary: s) (simp_all add: coherent_call_handler)

lemma coherent_emit: "coherent s \<Longrightarrow> coherent (emit clk w ev s)"
  unfolding emit_def by (rule coherent_handlers)

lemma coherent_burst: "coherent s \<Longrightarrow> coherent (fold (emit clk w) es s)"
  by (induction es arbitrary: s) (simp_all add: coherent_emit)

lemma settled_flush_effects: "coherent s \<Longrightarrow> settled (flush_effects s)"
  by (cases "cleanup s"; cases "activeWallet s")
     (auto simp: settled_def coherent_def flush_effects_def run_cleanup_def effect_body_def
        wallet_on_def wallet_off_def handlers_of_def)

lemma settled_coherent: "settled s \<Longrightarrow> coherent s"
  by (simp add: settled_def)

lemma flush_effects_settled: "settled s \<Longrightarrow> flush_effects s = s"
  by (simp add: settled_def flush_effects_def)

lemma settled_startup: "settled (startup ws)"
  unfolding startup_def
  by (rule settled_flush_effects) (simp add: coherent_def constructor_def handlers_of_def)

lemma settled_disconnect: "settled s \<Longrightarrow> settled (fst (disconnect clk d s))"
  by (cases "activeWallet s")
     (simp_all add: disconnect_def settled_flush_effects coherent_burst settled_coherent)

lemma settled_connectWallet: "settled s \<Longrightarrow> settled (fst (connectWallet clk d c w s))"
proof -
  assume s: "settled s"
  obtain s1 r where dr: "(if activeWallet s \<noteq> None then disconnect clk d s else (s, Resolved)) = (s1, r)"
    by (cases "if activeWallet s \<noteq> None then disconnect clk d s else (s, Resolved)")
  have s1: "settled s1"
    using dr s settled_disconnect [of s clk d] by (auto split: if_splits)
  then have "coherent (fold (emit clk w) (emitted c) (s1\<lparr>calls := calls s1 @ [CallConnect w]\<rparr>))"
    by (simp add: coherent_burst settled_coherent)
  then show ?thesis
    using s s1 dr
    by (cases r; cases "settles c")
       (simp_all add: connectWallet_def Let_def settled_flush_effects coherent_set_activeWallet)
qed

lemma settled_perform: "settled s \<Longrightarrow> settled (perform clk op s)"
  by (cases op)
     (simp_all add: settled_connectWallet settled_disconnect settled_flush_effects coherent_emit
        settled_coherent)

lemma settled_fold: "settled s \<Longrightarrow> settled (fold (perform clk) ops s)"
  by (induction ops arbitrary: s) (simp_all add: settled_perform)

lemma settled_run: "settled (run clk ops (startup ws))"
  unfolding run_def by (rule settled_fold) (rule settled_startup)

subsection \<open>Events in a coherent state\<close>

lemma emit_not_subscribed:
  "coherent s \<Longrightarrow> map_option fst (cleanup s) \<noteq> Some w \<Longrightarrow> emit clk w ev s = s"
  by (cases "cleanup s") (auto simp: coherent_def handlers_of_def emit_def)


lemma emit_disconnect_subscribed:
  "coherent s \<Longrightarrow> cleanup s = Some (h, k) \<Longrightarrow>
   emit clk h DisconnectEvent s = call_handler clk (disconnectHandler k h) DisconnectEvent s"
  by (simp add: coherent_def handlers_of_def emit_def event_name_def)

lemma emit_error_subscribed:
  "coherent s \<Longrightarrow> cleanup s = Some (h, k) \<Longrightarrow>
   emit clk h (ErrorEvent e) s = call_handler clk (errorHandler k h) (ErrorEvent e) s"
  by (simp add: coherent_def handlers_of_def emit_def event_name_def)



lemma capability_calls_append [simp]:
  "capability_calls (xs @ ys) = capability_calls xs @ capability_calls ys"
  by (simp add: capability_calls_def)

lemma capability_calls_single [simp]:
  "capability_calls [CallConnect w] = [CallConnect w]"
  "capability_calls [CallDisconnect w] = [CallDisconnect w]"
  by (simp_all add: capability_calls_def)

lemma run_snoc: "run clk (ops @ [op]) s = perform clk op (run clk ops s)"
  by (simp add: run_def)

subsection \<open>disconnect\<close>



lemma disconnect_active_any:
  "activeWallet (fst (disconnect clk d s)) = None
   \<or> activeWallet (fst (disconnect clk d s)) = activeWallet s"
proof (cases "activeWallet s")
  case None
  then show ?thesis by (simp add: disconnect_def)
next
  case (Some w)
  then show ?thesis
    using burst_active [of clk w "emitted d" "s\<lparr>calls := calls s @ [CallDisconnect w]\<rparr>"]
    by (simp add: disconnect_def)
qed

lemma disconnect_capability_calls:
  "activeWallet s = Some h \<Longrightarrow>
   capability_calls (calls (fst (disconnect clk d s))) = capability_calls (calls s) @ [CallDisconnect h]"
  by (simp add: disconnect_def)

lemma settled_cleanup: "settled s \<Longrightarrow> activeWallet s = Some h \<Longrightarrow> \<exists>k. cleanup s = Some (h, k)"
  by (cases "cleanup s") (auto simp: settled_def coherent_def)

lemma settled_listeners_none: "settled s \<Longrightarrow> activeWallet s = None \<Longrightarrow> listeners s = []"
  by (cases "cleanup s") (auto simp: settled_def coherent_def handlers_of_def)

lemma settled_listeners_some:
  "settled s \<Longrightarrow> activeWallet s = Some h \<Longrightarrow>
   \<exists>k. listeners s = [(h, ''disconnect'', disconnectHandler k h), (h, ''error'', errorHandler k h)]"
  by (cases "cleanup s") (auto simp: settled_def coherent_def handlers_of_def)

lemma settled_not_subscribed:
  "settled s \<Longrightarrow> activeWallet s \<noteq> Some w \<Longrightarrow> map_option fst (cleanup s) \<noteq> Some w"
  by (simp add: settled_def coherent_def)


subsection \<open>connectWallet\<close>

text \<open>The state at the suspension point between the two adapter calls.\<close>

lemma connectWallet_rejected_disconnect:
  "activeWallet s \<noteq> Some h \<Longrightarrow> activeWallet s \<noteq> None \<Longrightarrow> settles d = Rejected e \<Longrightarrow>
   connectWallet clk d c h s = (fst (disconnect clk d s), Rejected e)"
  by (cases "activeWallet s") (auto simp: connectWallet_def disconnect_def)

lemma connectWallet_after_disconnect:
  assumes "activeWallet s \<noteq> Some h" and "activeWallet s = None \<or> settles d = Resolved"
  shows "connectWallet clk d c h s =
     (let s1 = (if activeWallet s = None then s else fst (disconnect clk d s));
          s2 = fold (emit clk h) (emitted c) (s1\<lparr>calls := calls s1 @ [CallConnect h]\<rparr>)
      in (case settles c of
            Resolved \<Rightarrow>
              (flush_effects
                 (log_line clk ''info'' (name h @ '' connected '' @ check_mark)
                    (set_activeWallet (Some h) s2)),
               Resolved)
          | Rejected e \<Rightarrow>
              (flush_effects (log_line clk ''error'' (name h @ '' error: '' @ e) s2), Resolved)))"
  using assms
  by (cases "activeWallet s") (auto simp: connectWallet_def disconnect_def Let_def)



lemma connectWallet_swap:
  assumes a: "activeWallet s = Some a"
      and b: "activeWallet (fst (connectWallet clk d c w s)) = Some b"
      and ab: "a \<noteq> b"
  shows "w = b \<and> settles d = Resolved \<and> settles c = Resolved
       \<and> capability_calls (calls (fst (connectWallet clk d c w s)))
           = capability_calls (calls s) @ [CallDisconnect a, CallConnect b]"
proof -
  have wa: "w \<noteq> a"
    using a b ab by (auto simp: connectWallet_def)
  let ?s1 = "fst (disconnect clk d s)"
  let ?s2 = "fold (emit clk w) (emitted c) (?s1\<lparr>calls := calls ?s1 @ [CallConnect w]\<rparr>)"
  have s1: "activeWallet ?s1 = None \<or> activeWallet ?s1 = Some a"
    using disconnect_active_any [of clk d s] a by simp
  have s2: "activeWallet ?s2 = None \<or> activeWallet ?s2 = Some a"
    using burst_active [of clk w "emitted c" "?s1\<lparr>calls := calls ?s1 @ [CallConnect w]\<rparr>"] s1
    by auto
  have d: "settles d = Resolved"
  proof (cases "settles d")
    case Resolved
    then show ?thesis .
  next
    case (Rejected e)
    then have "connectWallet clk d c w s = (?s1, Rejected e)"
      using a wa by (simp add: connectWallet_rejected_disconnect)
    then show ?thesis using b s1 ab by auto
  qed
  have unfold: "connectWallet clk d c w s =
     (case settles c of
        Resolved \<Rightarrow>
          (flush_effects
             (log_line clk ''info'' (name w @ '' connected '' @ check_mark)
                (set_activeWallet (Some w) ?s2)), Resolved)
      | Rejected e \<Rightarrow>
          (flush_effects (log_line clk ''error'' (name w @ '' error: '' @ e) ?s2), Resolved))"
    using connectWallet_after_disconnect [of s w d clk c] a wa d by (simp add: Let_def)
  have c: "settles c = Resolved"
  proof (cases "settles c")
    case Resolved
    then show ?thesis .
  next
    case (Rejected e)
    then have "activeWallet (fst (connectWallet clk d c w s)) = activeWallet ?s2"
      by (simp add: unfold)
    then show ?thesis using b s2 ab by auto
  qed
  have w: "w = b"
    using b c by (simp add: unfold)
  have "capability_calls (calls (fst (connectWallet clk d c w s)))
        = capability_calls (calls ?s1) @ [CallConnect w]"
    using c by (simp add: unfold)
  then show ?thesis
    using w c d disconnect_capability_calls [OF a, of clk d] by simp
qed

lemma connected_phantom:
  "run ticking [Connect phantom quiet quiet] (startup [phantom, solflare])
   = \<lparr>wallets = [phantom, solflare], activeWallet = Some phantom,
      logs = [\<lparr>topic = ''info'', message = ''Phantom connected '' @ check_mark, timestamp = 0\<rparr>],
      listeners = [(phantom, ''disconnect'', disconnectHandler 0 phantom),
                   (phantom, ''error'', errorHandler 0 phantom)],
      cleanup = Some (phantom, 0), dirty = False, runs = 1, calls = [CallConnect phantom,
        CallOn phantom ''disconnect'' (disconnectHandler 0 phantom),
        CallOn phantom ''error'' (errorHandler 0 phantom)]\<rparr>"
  by (simp add: service_defs example_defs)

lemma phantom_not_solflare: "phantom \<noteq> solflare"
  by (simp add: example_defs)

subsection \<open>Operations as calls in flight\<close>

text \<open>An operation of \<open>run\<close> is a call made with no other call in flight and settled
  before anything else happens.\<close>

lemma alone_perform:
  "execute clk (alone op s) (s, []) = (perform clk op s, [])"
proof (cases op)
  case (Connect w d c)
  show ?thesis
  proof (cases "activeWallet s")
    case None
    then show ?thesis
      using Connect
      by (cases "settles c")
         (simp_all add: execute_def alone_def call_connectWallet_def connectWallet_def Let_def)
  next
    case (Some a)
    show ?thesis
    proof (cases "a = w")
      case True
      then show ?thesis
        using Connect Some
        by (simp add: execute_def alone_def call_connectWallet_def connectWallet_def)
    next
      case False
      then show ?thesis
        using Connect Some
        by (cases "settles d"; cases "settles c")
           (simp_all add: execute_def alone_def call_connectWallet_def connectWallet_def
              disconnect_def Let_def)
    qed
  qed
next
  case (Disconnect d)
  then show ?thesis
    by (cases "activeWallet s")
       (simp_all add: execute_def alone_def call_disconnect_def disconnect_def Let_def)
next
  case (Emits w ev)
  then show ?thesis
    by (simp add: execute_def alone_def)
qed

lemma settled_resume: "settled s \<Longrightarrow> settled (fst (resume clk p r s))"
proof (cases p)
  case (DisconnectPending a nxt)
  assume "settled s"
  then have "settled (flush_effects (fold (emit clk a) (emitted r) s))"
    by (simp add: settled_flush_effects coherent_burst settled_coherent)
  then show ?thesis
    using DisconnectPending
    by (cases nxt; cases "settles r") (simp_all add: Let_def settled_def)
next
  case (ConnectPending w)
  assume "settled s"
  then have "coherent (fold (emit clk w) (emitted r) s)"
    by (simp add: coherent_burst settled_coherent)
  then show ?thesis
    using ConnectPending
    by (cases "settles r") (simp_all add: Let_def settled_flush_effects coherent_set_activeWallet)
qed

lemma settled_happen: "settled (fst \<sigma>) \<Longrightarrow> settled (fst (happen clk h \<sigma>))"
proof (cases h)
  case (Called_connectWallet w)
  assume "settled (fst \<sigma>)"
  then show ?thesis
    using Called_connectWallet
    by (cases "activeWallet (fst \<sigma>)") (simp_all add: call_connectWallet_def settled_def)
next
  case Called_disconnect
  assume "settled (fst \<sigma>)"
  then show ?thesis
    using Called_disconnect
    by (cases "activeWallet (fst \<sigma>)") (simp_all add: call_disconnect_def settled_def)
next
  case (Settled i r)
  assume "settled (fst \<sigma>)"
  then have "settled (fst (resume clk (snd \<sigma> ! i) r (fst \<sigma>)))"
    by (rule settled_resume)
  then show ?thesis
    using Settled \<open>settled (fst \<sigma>)\<close>
    by (simp add: split_beta)
next
  case (Emitted w ev)
  assume "settled (fst \<sigma>)"
  then show ?thesis
    using Emitted by (simp add: settled_flush_effects coherent_emit settled_coherent)
qed

lemma settled_execute: "settled (fst \<sigma>) \<Longrightarrow> settled (fst (execute clk hs \<sigma>))"
  unfolding execute_def
  by (induction hs arbitrary: \<sigma>) (simp_all add: settled_happen)

subsection \<open>The entries of a call\<close>



lemma length_event_entries [simp]: "length (event_entries clk a n es) = length es"
  by (induction es arbitrary: n) simp_all












section \<open>The claims\<close>

subsection \<open>Session transitions\<close>

text \<open>
  C1, as the code has it. The session holds one reference, so at most one wallet is active
  in every state. Through every sequence of operations from the start, each made with no
  other call in flight and run until its promise has settled: when an operation leaves a
  wallet \<open>b\<close> active where a different wallet \<open>a\<close> was active before it, the operation is a
  call \<open>connectWallet(b)\<close>, the \<open>disconnect()\<close> of \<open>a\<close> was invoked and had resolved before the
  \<open>connect()\<close> of \<open>b\<close> was invoked, these are the only two capabilities invoked, and between
  the two the active wallet is \<open>a\<close> or none. Such an operation is the call, cut at its
  \<open>await\<close>s, with nothing else happening before its promises have settled.
\<close>

theorem swap_disconnects_first:
  "card {w. activeWallet (run clk ops (startup ws)) = Some w} \<le> 1
   \<and> (\<forall>a b. activeWallet (run clk ops (startup ws)) = Some a
          \<and> activeWallet (run clk (ops @ [op]) (startup ws)) = Some b \<and> a \<noteq> b
        \<longrightarrow> (\<exists>d c. op = Connect b d c \<and> settles d = Resolved \<and> settles c = Resolved
              \<and> capability_calls (calls (run clk (ops @ [op]) (startup ws)))
                  = capability_calls (calls (run clk ops (startup ws)))
                    @ [CallDisconnect a, CallConnect b]
              \<and> (activeWallet (fst (disconnect clk d (run clk ops (startup ws)))) = None
                 \<or> activeWallet (fst (disconnect clk d (run clk ops (startup ws)))) = Some a)))
   \<and> execute clk (alone op (run clk ops (startup ws))) (run clk ops (startup ws), [])
       = (run clk (ops @ [op]) (startup ws), [])"
proof -
  let ?s = "run clk ops (startup ws)"
  have one: "card {w. activeWallet ?s = Some w} \<le> 1"
  proof (cases "activeWallet ?s")
    case None
    then show ?thesis by simp
  next
    case (Some x)
    then have "{w. activeWallet ?s = Some w} = {x}" by auto
    then show ?thesis by simp
  qed
  have swap: "\<exists>d c. op = Connect b d c \<and> settles d = Resolved \<and> settles c = Resolved
              \<and> capability_calls (calls (run clk (ops @ [op]) (startup ws)))
                  = capability_calls (calls ?s) @ [CallDisconnect a, CallConnect b]
              \<and> (activeWallet (fst (disconnect clk d ?s)) = None
                 \<or> activeWallet (fst (disconnect clk d ?s)) = Some a)"
    if a: "activeWallet ?s = Some a"
      and b: "activeWallet (run clk (ops @ [op]) (startup ws)) = Some b"
      and ab: "a \<noteq> b" for a b
  proof (cases op)
    case (Connect w d c)
    have b': "activeWallet (fst (connectWallet clk d c w ?s)) = Some b"
      using b Connect by (simp add: run_snoc)
    show ?thesis
      using connectWallet_swap [OF a b' ab] disconnect_active_any [of clk d ?s] a Connect
      by (auto simp: run_snoc)
  next
    case (Disconnect d)
    then show ?thesis
      using disconnect_active_any [of clk d ?s] a b ab by (auto simp: run_snoc)
  next
    case (Emits w ev)
    then show ?thesis
      using emit_active [of clk w ev ?s] a b ab by (auto simp: run_snoc)
  qed
  have alone: "execute clk (alone op ?s) (?s, []) = (run clk (ops @ [op]) (startup ws), [])"
    by (simp add: alone_perform run_snoc)
  show ?thesis
    using one swap alone by blast
qed

theorem swap_disconnects_first_witness:
  "activeWallet (run ticking [Connect phantom quiet quiet] (startup [phantom, solflare])) = Some phantom
   \<and> activeWallet (run ticking ([Connect phantom quiet quiet] @ [Connect solflare announced quiet])
        (startup [phantom, solflare])) = Some solflare
   \<and> capability_calls (calls (run ticking ([Connect phantom quiet quiet] @ [Connect solflare announced quiet])
        (startup [phantom, solflare])))
      = [CallConnect phantom, CallDisconnect phantom, CallConnect solflare]"
proof -
  let ?ops = "[Connect phantom quiet quiet]"
  let ?op = "Connect solflare announced quiet"
  have a: "activeWallet (run ticking ?ops (startup [phantom, solflare])) = Some phantom"
    by (simp add: connected_phantom)
  have b: "activeWallet (run ticking (?ops @ [?op]) (startup [phantom, solflare])) = Some solflare"
    unfolding run_snoc connected_phantom
    by (simp add: service_defs example_defs)
  have "capability_calls (calls (run ticking (?ops @ [?op]) (startup [phantom, solflare])))
        = capability_calls (calls (run ticking ?ops (startup [phantom, solflare])))
          @ [CallDisconnect phantom, CallConnect solflare]"
    using swap_disconnects_first [of ticking ?ops "[phantom, solflare]" ?op] a b phantom_not_solflare
    by blast
  then show ?thesis
    using a b by (simp add: connected_phantom capability_calls_def)
qed

text \<open>
  C1, as stated, fails when calls overlap: \<open>connectWallet(phantom)\<close> and then
  \<open>connectWallet(solflare)\<close> are called while no wallet is active, so neither disconnects
  anything; the \<open>connect()\<close> of Phantom resolves and Phantom is active; the \<open>connect()\<close> of
  Solflare resolves and Solflare is active. No \<open>disconnect()\<close> was invoked on Phantom.
\<close>

theorem overlapping_connects_counterexample:
  "activeWallet (fst (execute ticking
       [Called_connectWallet phantom, Called_connectWallet solflare, Settled 0 quiet]
       (startup [phantom, solflare], []))) = Some phantom
   \<and> activeWallet (fst (execute ticking
       [Called_connectWallet phantom, Called_connectWallet solflare, Settled 0 quiet, Settled 0 quiet]
       (startup [phantom, solflare], []))) = Some solflare
   \<and> capability_calls (calls (fst (execute ticking
       [Called_connectWallet phantom, Called_connectWallet solflare, Settled 0 quiet, Settled 0 quiet]
       (startup [phantom, solflare], []))))
      = [CallConnect phantom, CallConnect solflare]"
  by (simp add: execute_def call_connectWallet_def capability_calls_def service_defs example_defs)




subsection \<open>Wallet events\<close>

text \<open>
  C3, as the code has it. The handlers are attached and removed by the effect, which the
  framework runs after the task that changed \<open>activeWallet\<close>. Every state reached from the
  start, by operations or by calls in flight, is settled: the effect has run since the
  active wallet last changed. In a settled state: when the active wallet \<open>h\<close> emits \<open>'disconnect'\<close>, the active wallet becomes
  null and exactly one entry of topic \<open>info\<close> is appended, after which the effect removes
  the handlers; when \<open>h\<close> emits \<open>'error'\<close>, exactly one entry of topic \<open>error\<close> is appended
  and nothing else changes. An event of a wallet that is not the active one changes
  nothing, and every subscribed handler is on the active wallet.
\<close>

theorem wallet_events:
  "settled (run clk ops (startup ws))
   \<and> settled (fst (execute clk hs (startup ws, [])))
   \<and> (settled s \<longrightarrow>
        (activeWallet s = Some h \<longrightarrow>
            activeWallet (emit clk h DisconnectEvent s) = None
          \<and> logs (emit clk h DisconnectEvent s)
              = logs s @ [\<lparr>topic = ''info'', message = name h @ '' disconnected '' @ cross_mark,
                           timestamp = clk (length (logs s))\<rparr>]
          \<and> listeners (perform clk (Emits h DisconnectEvent) s) = []
          \<and> emit clk h (ErrorEvent e) s
              = s\<lparr>logs := logs s @ [\<lparr>topic = ''error'', message = name h @ '' error: '' @ e,
                                      timestamp = clk (length (logs s))\<rparr>]\<rparr>
          \<and> perform clk (Emits h (ErrorEvent e)) s = emit clk h (ErrorEvent e) s)
      \<and> (activeWallet s \<noteq> Some w \<longrightarrow> emit clk w ev s = s \<and> perform clk (Emits w ev) s = s)
      \<and> (\<forall>l\<in>set (listeners s). activeWallet s = Some (fst l)))"
proof -
  have reached: "settled (run clk ops (startup ws))"
    by (rule settled_run)
  have reached': "settled (fst (execute clk hs (startup ws, [])))"
    by (rule settled_execute) (simp add: settled_startup)
  have main:
    "(activeWallet s = Some h \<longrightarrow>
            activeWallet (emit clk h DisconnectEvent s) = None
          \<and> logs (emit clk h DisconnectEvent s)
              = logs s @ [\<lparr>topic = ''info'', message = name h @ '' disconnected '' @ cross_mark,
                           timestamp = clk (length (logs s))\<rparr>]
          \<and> listeners (perform clk (Emits h DisconnectEvent) s) = []
          \<and> emit clk h (ErrorEvent e) s
              = s\<lparr>logs := logs s @ [\<lparr>topic = ''error'', message = name h @ '' error: '' @ e,
                                      timestamp = clk (length (logs s))\<rparr>]\<rparr>
          \<and> perform clk (Emits h (ErrorEvent e)) s = emit clk h (ErrorEvent e) s)
      \<and> (activeWallet s \<noteq> Some w \<longrightarrow> emit clk w ev s = s \<and> perform clk (Emits w ev) s = s)
      \<and> (\<forall>l\<in>set (listeners s). activeWallet s = Some (fst l))"
    if s: "settled s"
  proof -
    have c: "coherent s" using s by (rule settled_coherent)
    have nd: "\<not> dirty s" using s by (simp add: settled_def)
    have other: "emit clk w ev s = s \<and> perform clk (Emits w ev) s = s" if "activeWallet s \<noteq> Some w"
      using emit_not_subscribed [OF c settled_not_subscribed [OF s that]] s
      by (simp add: flush_effects_settled)
    have ls: "\<forall>l\<in>set (listeners s). activeWallet s = Some (fst l)"
    proof (cases "activeWallet s")
      case None
      then show ?thesis using settled_listeners_none [OF s] by simp
    next
      case (Some a)
      then show ?thesis using settled_listeners_some [OF s Some] by auto
    qed
    have active:
      "activeWallet (emit clk h DisconnectEvent s) = None
       \<and> logs (emit clk h DisconnectEvent s)
           = logs s @ [\<lparr>topic = ''info'', message = name h @ '' disconnected '' @ cross_mark,
                        timestamp = clk (length (logs s))\<rparr>]
       \<and> listeners (perform clk (Emits h DisconnectEvent) s) = []
       \<and> emit clk h (ErrorEvent e) s
           = s\<lparr>logs := logs s @ [\<lparr>topic = ''error'', message = name h @ '' error: '' @ e,
                                   timestamp = clk (length (logs s))\<rparr>]\<rparr>
       \<and> perform clk (Emits h (ErrorEvent e)) s = emit clk h (ErrorEvent e) s"
      if h: "activeWallet s = Some h"
    proof -
      obtain k where k: "cleanup s = Some (h, k)"
        using settled_cleanup [OF s h] by blast
      have d: "emit clk h DisconnectEvent s
               = set_activeWallet None
                   (log_line clk ''info'' (name h @ '' disconnected '' @ cross_mark) s)"
        by (simp add: emit_disconnect_subscribed [OF c k])
      have er: "emit clk h (ErrorEvent e) s = log_line clk ''error'' (name h @ '' error: '' @ e) s"
        by (simp add: emit_error_subscribed [OF c k] event_arg_def)
      have "settled (flush_effects (emit clk h DisconnectEvent s))"
        using c by (simp add: settled_flush_effects coherent_emit)
      then have l: "listeners (perform clk (Emits h DisconnectEvent) s) = []"
        by (simp add: settled_listeners_none d)
      have d1: "activeWallet (emit clk h DisconnectEvent s) = None"
        by (simp add: d)
      have d2: "logs (emit clk h DisconnectEvent s)
           = logs s @ [\<lparr>topic = ''info'', message = name h @ '' disconnected '' @ cross_mark,
                        timestamp = clk (length (logs s))\<rparr>]"
        by (simp add: d printLog_def)
      have e1: "emit clk h (ErrorEvent e) s
           = s\<lparr>logs := logs s @ [\<lparr>topic = ''error'', message = name h @ '' error: '' @ e,
                                   timestamp = clk (length (logs s))\<rparr>]\<rparr>"
        by (simp add: er log_line_def printLog_def)
      have e2: "perform clk (Emits h (ErrorEvent e)) s = emit clk h (ErrorEvent e) s"
        using nd by (simp add: er flush_effects_def)
      show ?thesis
        using d1 d2 l e1 e2 by (intro conjI)
    qed
    show ?thesis
      using active other ls by (intro conjI impI) blast+
  qed
  show ?thesis
    using reached reached' main by (intro conjI impI) blast+
qed

theorem wallet_events_witness:
  "settled (run ticking [Connect phantom quiet quiet] (startup [phantom, solflare]))
   \<and> activeWallet (run ticking [Connect phantom quiet quiet] (startup [phantom, solflare])) = Some phantom
   \<and> activeWallet (emit ticking phantom DisconnectEvent
        (run ticking [Connect phantom quiet quiet] (startup [phantom, solflare]))) = None
   \<and> logs (emit ticking phantom DisconnectEvent
        (run ticking [Connect phantom quiet quiet] (startup [phantom, solflare])))
      = [\<lparr>topic = ''info'', message = ''Phantom connected '' @ check_mark, timestamp = 0\<rparr>,
         \<lparr>topic = ''info'', message = ''Phantom disconnected '' @ cross_mark, timestamp = 1\<rparr>]
   \<and> emit ticking solflare (ErrorEvent ''locked'')
        (run ticking [Connect phantom quiet quiet] (startup [phantom, solflare]))
      = run ticking [Connect phantom quiet quiet] (startup [phantom, solflare])"
proof -
  let ?s = "run ticking [Connect phantom quiet quiet] (startup [phantom, solflare])"
  have st: "settled ?s"
    using wallet_events [of ticking "[Connect phantom quiet quiet]" "[phantom, solflare]"] by blast
  have a: "activeWallet ?s = Some phantom"
    by (simp add: connected_phantom)
  have n: "activeWallet ?s \<noteq> Some solflare"
    using phantom_not_solflare by (simp add: connected_phantom)
  have l: "logs ?s = [\<lparr>topic = ''info'', message = ''Phantom connected '' @ check_mark, timestamp = 0\<rparr>]"
    by (simp add: connected_phantom)
  have p: "name phantom = ''Phantom''"
    by (simp add: phantom_def)
  have "activeWallet (emit ticking phantom DisconnectEvent ?s) = None
        \<and> logs (emit ticking phantom DisconnectEvent ?s)
           = logs ?s @ [\<lparr>topic = ''info'', message = name phantom @ '' disconnected '' @ cross_mark,
                         timestamp = ticking (length (logs ?s))\<rparr>]
        \<and> emit ticking solflare (ErrorEvent ''locked'') ?s = ?s"
    using wallet_events [where s = ?s and clk = ticking and h = phantom and w = solflare
                           and ev = "ErrorEvent ''locked''"] st a n
    by blast
  then show ?thesis
    using st a by (simp add: l p ticking_def)
qed

text \<open>
  C3, as stated, fails before the effect has run again: Phantom is active and emits
  \<open>'disconnect'\<close>, the handler sets the active wallet to null, and Phantom emits \<open>'error'\<close>
  in the same task. Phantom is not the active wallet then, but its handlers are still
  subscribed, and an entry of topic \<open>error\<close> is appended.
\<close>

theorem stale_handler_counterexample:
  "activeWallet (emit ticking phantom DisconnectEvent
       (run ticking [Connect phantom quiet quiet] (startup [phantom, solflare]))) = None
   \<and> listeners (emit ticking phantom DisconnectEvent
       (run ticking [Connect phantom quiet quiet] (startup [phantom, solflare])))
      = [(phantom, ''disconnect'', disconnectHandler 0 phantom),
         (phantom, ''error'', errorHandler 0 phantom)]
   \<and> logs (emit ticking phantom (ErrorEvent ''locked'')
       (emit ticking phantom DisconnectEvent
         (run ticking [Connect phantom quiet quiet] (startup [phantom, solflare]))))
      = logs (emit ticking phantom DisconnectEvent
         (run ticking [Connect phantom quiet quiet] (startup [phantom, solflare])))
        @ [\<lparr>topic = ''error'', message = ''Phantom error: locked'', timestamp = 2\<rparr>]"
  unfolding connected_phantom
  by (simp add: service_defs example_defs)

subsection \<open>connectWallet\<close>







text \<open>
  C6. \<open>connectWallet(h)\<close> where \<open>h\<close> is already the active wallet resolves and leaves the
  whole state as it was: the signals, the log, the subscriptions and the history of
  adapter invocations (no \<open>connect()\<close>, no \<open>on\<close>, no \<open>off\<close>).
\<close>

theorem connectWallet_active_noop:
  "activeWallet s = Some h \<Longrightarrow> connectWallet clk d c h s = (s, Resolved)"
  by (simp add: connectWallet_def)

theorem connectWallet_active_noop_witness:
  "activeWallet (run ticking [Connect phantom quiet quiet] (startup [phantom, solflare])) = Some phantom
   \<and> connectWallet ticking announced refused phantom
        (run ticking [Connect phantom quiet quiet] (startup [phantom, solflare]))
      = (run ticking [Connect phantom quiet quiet] (startup [phantom, solflare]), Resolved)"
proof -
  have a: "activeWallet (run ticking [Connect phantom quiet quiet] (startup [phantom, solflare]))
           = Some phantom"
    by (simp add: connected_phantom)
  show ?thesis
    using a connectWallet_active_noop [OF a, of ticking announced refused] by simp
qed

subsection \<open>The catalog\<close>

text \<open>
  C7. The catalog set at startup is the declared list sorted by priority (Installed 0,
  Loadable 1, NotDetected 2, Unsupported 3) in ascending order: it is sorted, it has the
  same elements, and the wallets of each ready state keep their declaration order. It is
  the only list with these three properties, so it is what any stable sort returns. For
  the ready states Unsupported, Installed, Loadable, Installed the catalog is the second
  and the fourth wallet, then the third, then the first.
\<close>

theorem wallets_stable_priority_order:
  "priority Installed = 0 \<and> priority Loadable = 1 \<and> priority NotDetected = 2
   \<and> priority Unsupported = 3
   \<and> sorted (map (\<lambda>w. priority (readyState w)) (wallets (startup ws)))
   \<and> (\<forall>r. filter (\<lambda>w. readyState w = r) (wallets (startup ws))
           = filter (\<lambda>w. readyState w = r) ws)
   \<and> mset (wallets (startup ws)) = mset ws
   \<and> (\<forall>ys. sorted (map (\<lambda>w. priority (readyState w)) ys)
           \<and> (\<forall>r. filter (\<lambda>w. readyState w = r) ys = filter (\<lambda>w. readyState w = r) ws)
           \<and> mset ys = mset ws
        \<longrightarrow> ys = wallets (startup ws))
   \<and> (map readyState [a, b, c, d] = [Unsupported, Installed, Loadable, Installed]
        \<longrightarrow> wallets (startup [a, b, c, d]) = [b, d, c, a])"
proof -
  have unique: "ys = wallets (startup ws)"
    if "sorted (map (\<lambda>w. priority (readyState w)) ys)"
      and "\<forall>r. filter (\<lambda>w. readyState w = r) ys = filter (\<lambda>w. readyState w = r) ws"
      and "mset ys = mset ws" for ys
  proof -
    have "sort_key (\<lambda>w. priority (readyState w)) ws = ys"
    proof (rule properties_for_sort_key)
      show "mset ys = mset ws" by (rule that(3))
      show "sorted (map (\<lambda>w. priority (readyState w)) ys)" by (rule that(1))
      show "filter (\<lambda>x. priority (readyState k) = priority (readyState x)) ys
            = filter (\<lambda>x. priority (readyState k) = priority (readyState x)) ws" for k
        using that(2) by (simp add: priority_inj eq_commute)
    qed
    then show ?thesis by (simp add: wallets_startup)
  qed
  have stable: "filter (\<lambda>w. readyState w = r) (wallets (startup ws))
                = filter (\<lambda>w. readyState w = r) ws" for r
    using sort_key_stable [of "\<lambda>w. priority (readyState w)" "priority r" ws]
    by (simp add: wallets_startup priority_inj)
  have example: "wallets (startup [a, b, c, d]) = [b, d, c, a]"
    if "map readyState [a, b, c, d] = [Unsupported, Installed, Loadable, Installed]"
    using that by (simp add: wallets_startup priority_def)
  have props: "sorted (map (\<lambda>w. priority (readyState w)) (wallets (startup ws)))"
    "mset (wallets (startup ws)) = mset ws"
    by (simp_all add: wallets_startup)
  have prio: "priority Installed = 0 \<and> priority Loadable = 1 \<and> priority NotDetected = 2
              \<and> priority Unsupported = 3"
    by (simp add: priority_def)
  show ?thesis
    using prio props stable unique example by blast
qed

theorem wallets_stable_priority_order_witness:
  "wallets (startup [trezor, phantom, ledger, solflare]) = [phantom, solflare, ledger, trezor]"
proof -
  have "map readyState [trezor, phantom, ledger, solflare] = [Unsupported, Installed, Loadable, Installed]"
    by (simp add: example_defs)
  then show ?thesis
    using wallets_stable_priority_order [of "[trezor, phantom, ledger, solflare]" trezor phantom ledger solflare]
    by simp
qed

subsection \<open>The log store\<close>

text \<open>
  C8, as the code has it. A sequence of \<open>printLog\<close> calls appends one entry for each call,
  in call order, after the entries already there, which stay as they were; read from the
  empty log, the topics and messages are those of the calls. The timestamp of an entry is
  the reading of the clock at its call, so the timestamps are non-decreasing exactly when
  the successive readings of the clock are.
\<close>

theorem printLogs_append_only:
  "printLogs clk cs ls
     = ls @ map (\<lambda>(i, c). entry clk i c) (zip [length ls ..< length ls + length cs] cs)
   \<and> length (printLogs clk cs []) = length cs
   \<and> map (\<lambda>l. (topic l, message l)) (printLogs clk cs []) = cs
   \<and> map timestamp (printLogs clk cs []) = map clk [0 ..< length cs]
   \<and> (sorted (map timestamp (printLogs clk cs []))
        \<longleftrightarrow> (\<forall>i j. i \<le> j \<and> j < length cs \<longrightarrow> clk i \<le> clk j))"
proof -
  have pairs: "map (\<lambda>l. (topic l, message l)) (printLogs clk cs []) = cs"
  proof -
    let ?z = "zip [0 ..< length cs] cs"
    have "map (\<lambda>l. (topic l, message l)) (printLogs clk cs []) = map snd ?z"
      by (simp add: printLogs_append entry_def split_beta comp_def)
    also have "\<dots> = cs" by (rule map_snd_zip) simp
    finally show ?thesis .
  qed
  have len: "length (printLogs clk cs []) = length cs"
    by (simp add: printLogs_append)
  have ts: "sorted (map timestamp (printLogs clk cs []))
        \<longleftrightarrow> (\<forall>i j. i \<le> j \<and> j < length cs \<longrightarrow> clk i \<le> clk j)"
    by (simp only: timestamps_printLogs sorted_clock)
  show ?thesis
    using printLogs_append [of clk cs ls] pairs len timestamps_printLogs [of clk cs] ts
    by blast
qed

theorem printLogs_append_only_witness:
  "sorted (map timestamp (printLogs ticking [(''info'', ''a''), (''error'', ''b'')] []))
   \<and> printLogs ticking [(''info'', ''a''), (''error'', ''b'')] []
       = [\<lparr>topic = ''info'', message = ''a'', timestamp = 0\<rparr>,
          \<lparr>topic = ''error'', message = ''b'', timestamp = 1\<rparr>]"
proof -
  have mono: "\<forall>i j. i \<le> j \<and> j < length [(''info'', ''a''), (''error'', ''b'')] \<longrightarrow> ticking i \<le> ticking j"
    by (simp add: ticking_def)
  have "sorted (map timestamp (printLogs ticking [(''info'', ''a''), (''error'', ''b'')] []))"
    using printLogs_append_only [of ticking "[(''info'', ''a''), (''error'', ''b'')]" "[]"] mono
    by blast
  moreover have "printLogs ticking [(''info'', ''a''), (''error'', ''b'')] []
       = [\<lparr>topic = ''info'', message = ''a'', timestamp = 0\<rparr>,
          \<lparr>topic = ''error'', message = ''b'', timestamp = 1\<rparr>]"
    by (simp add: printLogs_def printLog_def ticking_def)
  ultimately show ?thesis by simp
qed

text \<open>
  C8, as stated, fails: the clock reads 2 at the first call and, set back, 1 at the second;
  the two entries are in call order and their timestamps decrease.
\<close>

theorem timestamps_counterexample:
  "printLogs set_back [(''info'', ''a''), (''info'', ''b'')] []
     = [\<lparr>topic = ''info'', message = ''a'', timestamp = 2\<rparr>,
        \<lparr>topic = ''info'', message = ''b'', timestamp = 1\<rparr>]
   \<and> \<not> sorted (map timestamp (printLogs set_back [(''info'', ''a''), (''info'', ''b'')] []))"
  by (simp add: printLogs_def printLog_def set_back_def)

subsection \<open>The league list\<close>

text \<open>
  C9. \<open>get_leagues()\<close> delivers what the backend answers to one request of
  \<open>/get_leagues\<close>: a body is delivered as it is, and the home component shows its league
  list, field for field; a transport failure is delivered as a failure, and the home
  component, which has no error callback, keeps the empty list and logs nothing. The
  component requests once.
\<close>

theorem get_leagues_pass_through:
  "fst (get_leagues h) = backend h (API_BASE_URL @ ''/get_leagues'')
   \<and> requested (api (HomeComponent_constructor clk h lg)) = requested h @ [API_BASE_URL @ ''/get_leagues'']
   \<and> (\<forall>data. backend h (API_BASE_URL @ ''/get_leagues'') = HttpBody data
        \<longrightarrow> fst (get_leagues h) = HttpBody data
            \<and> home_leagues (HomeComponent_constructor clk h lg) = leagues data)
   \<and> (\<forall>e. backend h (API_BASE_URL @ ''/get_leagues'') = HttpError e
        \<longrightarrow> fst (get_leagues h) = HttpError e
            \<and> home_leagues (HomeComponent_constructor clk h lg) = []
            \<and> logger (HomeComponent_constructor clk h lg) = lg)"
  by (simp add: HomeComponent_constructor_def get_leagues_def http_get_def split: http_result.splits)

theorem get_leagues_pass_through_witness:
  "home_leagues (HomeComponent_constructor ticking mock_backend []) = [premier]
   \<and> fst (get_leagues failing_backend) = HttpError ''timeout''
   \<and> home_leagues (HomeComponent_constructor ticking failing_backend []) = []
   \<and> logger (HomeComponent_constructor ticking failing_backend []) = []
   \<and> requested (api (HomeComponent_constructor ticking failing_backend []))
      = [''http://localhost:8000/get_leagues'']"
proof -
  have ok: "backend mock_backend (API_BASE_URL @ ''/get_leagues'') = HttpBody \<lparr>leagues = [premier]\<rparr>"
    by (simp add: mock_backend_def)
  have ko: "backend failing_backend (API_BASE_URL @ ''/get_leagues'') = HttpError ''timeout''"
    by (simp add: failing_backend_def)
  have "home_leagues (HomeComponent_constructor ticking mock_backend []) = leagues \<lparr>leagues = [premier]\<rparr>"
    using get_leagues_pass_through [of mock_backend ticking "[]"] ok by blast
  moreover have "fst (get_leagues failing_backend) = HttpError ''timeout''
        \<and> home_leagues (HomeComponent_constructor ticking failing_backend []) = []
        \<and> logger (HomeComponent_constructor ticking failing_backend []) = []"
    using get_leagues_pass_through [of failing_backend ticking "[]"] ko by blast
  moreover have "requested (api (HomeComponent_constructor ticking failing_backend []))
      = requested failing_backend @ [API_BASE_URL @ ''/get_leagues'']"
    using get_leagues_pass_through [of failing_backend ticking "[]"] by blast
  ultimately show ?thesis
    by (simp add: failing_backend_def API_BASE_URL_def)
qed

subsection \<open>The navbar\<close>

text \<open>
  C10. \<open>connectWallet(name)\<close> of the navbar returns on every name. When no wallet of the
  catalog has the name, the component and the service are as before. When the first
  wallet of that name is not Installed, only its URL is opened: the service, and so the
  history of adapter invocations, is as before. Hence, through any sequence of navbar
  actions from the start, every wallet passed to the service's \<open>connectWallet\<close> is
  Installed.
\<close>

theorem navbar_connectWallet_guarded:
  "(find (\<lambda>w. name w = nm) (wallets (walletService nav)) = None
      \<longrightarrow> navbar_connectWallet clk d c nm nav = nav)
   \<and> (\<forall>w. find (\<lambda>w. name w = nm) (wallets (walletService nav)) = Some w
            \<and> readyState w \<noteq> Installed
      \<longrightarrow> navbar_connectWallet clk d c nm nav = nav\<lparr>opened := opened nav @ [url w]\<rparr>)
   \<and> (\<forall>w\<in>set (connects (fold (navbar_perform clk) acts (navbar_init ws))).
         readyState w = Installed)"
proof -
  have "\<forall>w\<in>set (connects (navbar_init ws)). readyState w = Installed"
    by (simp add: navbar_init_def)
  then have "\<forall>w\<in>set (connects (fold (navbar_perform clk) acts (navbar_init ws))).
         readyState w = Installed"
    by (rule connects_Installed_fold)
  then show ?thesis
    by (simp add: navbar_connectWallet_def)
qed

theorem navbar_connectWallet_guarded_witness:
  "navbar_connectWallet ticking quiet quiet ''Backpack'' (navbar_init [ledger, phantom])
     = navbar_init [ledger, phantom]
   \<and> navbar_connectWallet ticking quiet quiet ''Ledger'' (navbar_init [ledger, phantom])
     = (navbar_init [ledger, phantom])\<lparr>opened := [''https://ledger.com'']\<rparr>
   \<and> connects (fold (navbar_perform ticking)
        [ConnectWallet ''Ledger'' quiet quiet, ConnectWallet ''Phantom'' quiet quiet]
        (navbar_init [ledger, phantom])) = [phantom]
   \<and> readyState phantom = Installed"
proof -
  let ?nav = "navbar_init [ledger, phantom]"
  have w: "wallets (walletService ?nav) = [phantom, ledger]"
    by (simp add: navbar_init_def wallets_startup example_defs priority_def)
  have none: "find (\<lambda>w. name w = ''Backpack'') (wallets (walletService ?nav)) = None"
    by (simp only: w) (simp add: example_defs)
  have some: "find (\<lambda>w. name w = ''Ledger'') (wallets (walletService ?nav)) = Some ledger
              \<and> readyState ledger \<noteq> Installed"
    by (simp only: w) (simp add: example_defs)
  have o: "opened ?nav = []" "url ledger = ''https://ledger.com''"
    by (simp_all add: navbar_init_def ledger_def)
  have 1: "navbar_connectWallet ticking quiet quiet ''Backpack'' ?nav = ?nav"
    using navbar_connectWallet_guarded [of "''Backpack''" ?nav ticking quiet quiet] none by blast
  have 2: "navbar_connectWallet ticking quiet quiet ''Ledger'' ?nav
           = ?nav\<lparr>opened := opened ?nav @ [url ledger]\<rparr>"
    using navbar_connectWallet_guarded [of "''Ledger''" ?nav ticking quiet quiet] some by blast
  have np: "name phantom = ''Phantom''" "readyState phantom = Installed"
    by (simp_all add: phantom_def)
  have c0: "connects ?nav = []"
    by (simp add: navbar_init_def)
  have "connects (navbar_connectWallet ticking quiet quiet ''Phantom''
          (?nav\<lparr>opened := opened ?nav @ [url ledger]\<rparr>)) = [phantom]"
    unfolding navbar_connectWallet_def by (simp add: w np c0)
  then have 3: "connects (fold (navbar_perform ticking)
        [ConnectWallet ''Ledger'' quiet quiet, ConnectWallet ''Phantom'' quiet quiet] ?nav) = [phantom]"
    by (simp add: 2)
  have "\<forall>w\<in>set (connects (fold (navbar_perform ticking)
        [ConnectWallet ''Ledger'' quiet quiet, ConnectWallet ''Phantom'' quiet quiet] ?nav)).
          readyState w = Installed"
    using navbar_connectWallet_guarded [of _ _ ticking _ _ 
        "[ConnectWallet ''Ledger'' quiet quiet, ConnectWallet ''Phantom'' quiet quiet]" "[ledger, phantom]"]
    by blast
  then have 4: "readyState phantom = Installed"
    unfolding 3 by simp
  show ?thesis
    using 1 2 3 4 by (simp add: o)
qed

end
